theory Spec2Isabelle
  imports Main "HOL-Library.Word"
begin

unbundle bit_operations_syntax

section \<open>The BPS patch engine of \<^verbatim>\<open>BaseFiles/bps_patcher.py\<close>\<close>

text \<open>
  A shallow embedding of \<^verbatim>\<open>read_vlv\<close> and \<^verbatim>\<open>apply_bps_patch\<close>.
  A Python \<^verbatim>\<open>bytes\<close> value is a list of 8-bit words. Python integers are unbounded:
  the decoded values, the patch cursor \<^verbatim>\<open>offset\<close>, the write cursor
  \<^verbatim>\<open>target_write_offset\<close> and the iteration counter start at a non-negative value and
  are only ever increased, so they are natural numbers; \<^verbatim>\<open>source_read_offset\<close>,
  \<^verbatim>\<open>relative_offset\<close> and \<^verbatim>\<open>copy_from\<close> can be negative and are integers.
\<close>

type_synonym byte = "8 word"

text \<open>
  The exceptions the two functions can raise: the three \<^verbatim>\<open>ValueError\<close>s raised explicitly
  (with their messages), and the \<^verbatim>\<open>IndexError\<close> of a subscript out of range.
\<close>

datatype error = ValueError string | IndexError

subsection \<open>\<^verbatim>\<open>read_vlv\<close>\<close>

text \<open>
  The \<^verbatim>\<open>while\<close> loop of \<^verbatim>\<open>read_vlv\<close>, with its local variables \<^verbatim>\<open>result\<close> and
  \<^verbatim>\<open>shift\<close> as arguments. The loop ends at the \<^verbatim>\<open>break\<close> (a byte with bit 7) or when
  \<^verbatim>\<open>offset\<close> has reached \<^verbatim>\<open>len(data)\<close>; in both cases the function returns the pair
  \<^verbatim>\<open>(result, offset)\<close>. It raises nothing.
\<close>

function read_vlv_loop :: "byte list \<Rightarrow> nat \<Rightarrow> nat \<Rightarrow> nat \<Rightarrow> nat \<times> nat" where
  "read_vlv_loop data offset result shift =
     (if offset < length data then
        (let byte = data ! offset;
             offset' = offset + 1;
             result' = result + unat (byte AND 0x7F) * shift
         in if byte AND 0x80 \<noteq> 0 then (result', offset')
            else read_vlv_loop data offset' result' (push_bit 7 shift))
      else (result, offset))"
  by pat_completeness auto
termination
  by (relation "measure (\<lambda>(data, offset, result, shift). length data - offset)") auto

declare read_vlv_loop.simps [simp del]

definition read_vlv :: "byte list \<Rightarrow> nat \<Rightarrow> nat \<times> nat" where
  "read_vlv data offset = read_vlv_loop data offset 0 1"

subsection \<open>The interpreter state\<close>

text \<open>The local variables of \<^verbatim>\<open>apply_bps_patch\<close> that the action loop reads and writes.\<close>

record state =
  offset :: nat
  source_read_offset :: int
  target_write_offset :: nat
  target :: "byte list"
  iteration_count :: nat

text \<open>
  The subscript \<^verbatim>\<open>source_rom[source_read_offset]\<close> of SourceRead, as Python evaluates it:
  an index from 0 up to the length reads that element, an index from \<^verbatim>\<open>-len\<close> up to -1
  reads from the end of the sequence, and any other index raises \<^verbatim>\<open>IndexError\<close>.
\<close>

definition py_index :: "byte list \<Rightarrow> int \<Rightarrow> error + byte" where
  "py_index bs i =
     (if 0 \<le> i \<and> i < int (length bs) then Inr (bs ! nat i)
      else if i < 0 \<and> - int (length bs) \<le> i then Inr (bs ! nat (int (length bs) + i))
      else Inl IndexError)"

text \<open>
  The signed relative offset of SourceCopy and TargetCopy (the same four lines in both
  branches): \<^verbatim>\<open>-((copy_offset >> 1) + 1) if copy_offset & 1 else copy_offset >> 1\<close>.
\<close>

definition relative_offset :: "nat \<Rightarrow> int" where
  "relative_offset copy_offset =
     (if copy_offset AND 1 \<noteq> 0 then - (int (drop_bit 1 copy_offset) + 1)
      else int (drop_bit 1 copy_offset))"

subsection \<open>The four actions\<close>

text \<open>
  Each \<^verbatim>\<open>for i in range(length)\<close> loop is a recursion on the number of rounds left.

  SourceRead (action 0). The guard does not test \<^verbatim>\<open>source_read_offset >= 0\<close>, so the
  subscript \<^verbatim>\<open>source_rom[source_read_offset]\<close> can have a negative index.
\<close>

fun source_read :: "nat \<Rightarrow> byte list \<Rightarrow> state \<Rightarrow> error + state" where
  "source_read 0 source_rom st = Inr st"
| "source_read (Suc n) source_rom st =
     (if source_read_offset st < int (length source_rom)
         \<and> target_write_offset st < length (target st) then
        (case py_index source_rom (source_read_offset st) of
           Inl e \<Rightarrow> Inl e
         | Inr b \<Rightarrow>
             source_read n source_rom
               (st\<lparr>target := (target st)[target_write_offset st := b],
                   target_write_offset := target_write_offset st + 1,
                   source_read_offset := source_read_offset st + 1\<rparr>))
      else if target_write_offset st < length (target st) then
        source_read n source_rom
          (st\<lparr>target := (target st)[target_write_offset st := 0],
              target_write_offset := target_write_offset st + 1,
              source_read_offset := source_read_offset st + 1\<rparr>)
      else
        source_read n source_rom
          (st\<lparr>target_write_offset := target_write_offset st + 1,
              source_read_offset := source_read_offset st + 1\<rparr>))"

text \<open>TargetRead (action 1): the bytes come from the patch itself, at \<^verbatim>\<open>offset\<close>.\<close>

fun target_read :: "nat \<Rightarrow> byte list \<Rightarrow> state \<Rightarrow> state" where
  "target_read 0 patch_data st = st"
| "target_read (Suc n) patch_data st =
     (if offset st < length patch_data \<and> target_write_offset st < length (target st) then
        target_read n patch_data
          (st\<lparr>target := (target st)[target_write_offset st := patch_data ! offset st],
              target_write_offset := target_write_offset st + 1,
              offset := offset st + 1\<rparr>)
      else if target_write_offset st < length (target st) then
        target_read n patch_data
          (st\<lparr>target := (target st)[target_write_offset st := 0],
              target_write_offset := target_write_offset st + 1,
              offset := offset st + 1\<rparr>)
      else
        target_read n patch_data
          (st\<lparr>target_write_offset := target_write_offset st + 1,
              offset := offset st + 1\<rparr>))"

text \<open>
  SourceCopy (action 2), the loop after \<^verbatim>\<open>source_read_offset += relative_offset\<close>. Here the
  guard has \<^verbatim>\<open>source_read_offset >= 0\<close>, so the subscript is in range.
\<close>

fun source_copy :: "nat \<Rightarrow> byte list \<Rightarrow> state \<Rightarrow> state" where
  "source_copy 0 source_rom st = st"
| "source_copy (Suc n) source_rom st =
     (if source_read_offset st \<ge> 0 \<and> source_read_offset st < int (length source_rom)
         \<and> target_write_offset st < length (target st) then
        source_copy n source_rom
          (st\<lparr>target := (target st)[target_write_offset st :=
                            source_rom ! nat (source_read_offset st)],
              target_write_offset := target_write_offset st + 1,
              source_read_offset := source_read_offset st + 1\<rparr>)
      else if target_write_offset st < length (target st) then
        source_copy n source_rom
          (st\<lparr>target := (target st)[target_write_offset st := 0],
              target_write_offset := target_write_offset st + 1,
              source_read_offset := source_read_offset st + 1\<rparr>)
      else
        source_copy n source_rom
          (st\<lparr>target_write_offset := target_write_offset st + 1,
              source_read_offset := source_read_offset st + 1\<rparr>))"

text \<open>
  TargetCopy (action 3), with its local \<^verbatim>\<open>copy_from\<close>. A byte is read from the target
  only at a position below the write cursor.
\<close>

fun target_copy :: "nat \<Rightarrow> int \<Rightarrow> state \<Rightarrow> state" where
  "target_copy 0 copy_from st = st"
| "target_copy (Suc n) copy_from st =
     (if copy_from \<ge> 0 \<and> copy_from < int (target_write_offset st)
         \<and> target_write_offset st < length (target st) then
        target_copy n (copy_from + 1)
          (st\<lparr>target := (target st)[target_write_offset st := target st ! nat copy_from],
              target_write_offset := target_write_offset st + 1\<rparr>)
      else if target_write_offset st < length (target st) then
        target_copy n (copy_from + 1)
          (st\<lparr>target := (target st)[target_write_offset st := 0],
              target_write_offset := target_write_offset st + 1\<rparr>)
      else
        target_copy n (copy_from + 1)
          (st\<lparr>target_write_offset := target_write_offset st + 1\<rparr>))"

subsection \<open>One iteration of the action loop\<close>

text \<open>The message of the \<^verbatim>\<open>ValueError\<close> raised when the iteration cap is exceeded.\<close>

definition max_iterations_msg :: string where
  "max_iterations_msg =
     ''Patch processing exceeded maximum iterations - patch may be corrupted''"

text \<open>
  The body of \<^verbatim>\<open>while offset < len(patch_data) - 12\<close>: the iteration guard, the decoding
  of the action and its length, and the dispatch on the action.
\<close>

definition step :: "byte list \<Rightarrow> byte list \<Rightarrow> state \<Rightarrow> error + state" where
  "step source_rom patch_data st =
     (if iteration_count st + 1 > length patch_data * 2 then
        Inl (ValueError max_iterations_msg)
      else
        (let action_data = read_vlv patch_data (offset st);
             st1 = st\<lparr>iteration_count := iteration_count st + 1, offset := snd action_data\<rparr>;
             action_raw = fst action_data;
             action = action_raw AND 3;
             len = drop_bit 2 action_raw + 1
         in if action = 0 then source_read len source_rom st1
            else if action = 1 then Inr (target_read len patch_data st1)
            else if action = 2 then
              (let copy_data = read_vlv patch_data (offset st1);
                   st2 = st1\<lparr>offset := snd copy_data,
                             source_read_offset :=
                               source_read_offset st1 + relative_offset (fst copy_data)\<rparr>
               in Inr (source_copy len source_rom st2))
            else if action = 3 then
              (let copy_data = read_vlv patch_data (offset st1);
                   st2 = st1\<lparr>offset := snd copy_data\<rparr>;
                   copy_from = int (target_write_offset st2) + relative_offset (fst copy_data)
               in Inr (target_copy len copy_from st2))
            else Inr st1))"

subsection \<open>The action loop\<close>

text \<open>
  Every call of \<^verbatim>\<open>read_vlv\<close> returns an offset that is not below the one it was given,
  and a larger one when there is a byte to read. So an iteration that starts below
  \<^verbatim>\<open>len(patch_data)\<close> moves the patch cursor forward: this is the measure of the loop.
\<close>

lemma read_vlv_loop_ge: "off \<le> snd (read_vlv_loop data off result shift)"
proof (induction data off result shift rule: read_vlv_loop.induct)
  case (1 data off result shift)
  show ?case
  proof (cases "off < length data \<and> data ! off AND 0x80 = 0")
    case True
    with 1 have "off + 1 \<le> snd (read_vlv_loop data (off + 1)
        (result + unat (data ! off AND 0x7F) * shift) (push_bit 7 shift))"
      by simp
    with True show ?thesis
      by (subst read_vlv_loop.simps) (simp add: Let_def)
  next
    case False
    then show ?thesis
      by (subst read_vlv_loop.simps) (auto simp: Let_def)
  qed
qed

lemma read_vlv_loop_gt:
  "off < length data \<Longrightarrow> off < snd (read_vlv_loop data off result shift)"
  using read_vlv_loop_ge [of "off + 1" data]
  by (subst read_vlv_loop.simps) (auto simp: Let_def Suc_le_eq)

lemma read_vlv_ge: "off \<le> snd (read_vlv data off)"
  by (simp add: read_vlv_def read_vlv_loop_ge)

lemma read_vlv_gt: "off < length data \<Longrightarrow> off < snd (read_vlv data off)"
  by (simp add: read_vlv_def read_vlv_loop_gt)

lemma source_read_offset_same:
  "source_read n source_rom st = Inr st' \<Longrightarrow> offset st' = offset st"
  by (induction n source_rom st rule: source_read.induct)
     (auto split: if_splits sum.splits)

lemma target_read_offset: "offset (target_read n patch_data st) = offset st + n"
  by (induction n patch_data st rule: target_read.induct) auto

lemma source_copy_offset: "offset (source_copy n source_rom st) = offset st"
  by (induction n source_rom st rule: source_copy.induct) auto

lemma target_copy_offset: "offset (target_copy n copy_from st) = offset st"
  by (induction n copy_from st rule: target_copy.induct) auto

lemma step_offset_gt:
  assumes "offset st < length patch_data" and "step source_rom patch_data st = Inr st'"
  shows "offset st < offset st'"
proof -
  have a: "offset st < snd (read_vlv patch_data (offset st))"
    using assms(1) by (rule read_vlv_gt)
  have b: "snd (read_vlv patch_data (offset st))
      \<le> snd (read_vlv patch_data (snd (read_vlv patch_data (offset st))))"
    by (rule read_vlv_ge)
  from assms(2) a b show ?thesis
    by (auto simp: step_def Let_def target_read_offset source_copy_offset target_copy_offset
        simp del: source_read.simps split: if_splits dest!: source_read_offset_same)
qed

text \<open>
  \<^verbatim>\<open>while offset < len(patch_data) - 12\<close>: an exception raised in the body ends the loop
  with that exception.
\<close>

function loop :: "byte list \<Rightarrow> byte list \<Rightarrow> state \<Rightarrow> error + state" where
  "loop source_rom patch_data st =
     (if int (offset st) < int (length patch_data) - 12 then
        (case step source_rom patch_data st of
           Inl e \<Rightarrow> Inl e
         | Inr st' \<Rightarrow> loop source_rom patch_data st')
      else Inr st)"
  by pat_completeness auto
termination
proof (relation "measure (\<lambda>(source_rom, patch_data, st). length patch_data - offset st)")
  show "wf (measure (\<lambda>(source_rom, patch_data, st). length patch_data - offset st))"
    by simp
next
  fix source_rom patch_data :: "byte list" and st st' :: state
  assume "int (offset st) < int (length patch_data) - 12"
    and "step source_rom patch_data st = Inr st'"
  then show "((source_rom, patch_data, st'), (source_rom, patch_data, st))
      \<in> measure (\<lambda>(source_rom, patch_data, st). length patch_data - offset st)"
    using step_offset_gt [of st patch_data source_rom st'] by simp
qed

declare loop.simps [simp del]

subsection \<open>\<^verbatim>\<open>apply_bps_patch\<close>\<close>

text \<open>The magic marker \<^verbatim>\<open>b'BPS1'\<close>.\<close>

definition magic :: "byte list" where
  "magic = [0x42, 0x50, 0x53, 0x31]"

text \<open>The messages of the two \<^verbatim>\<open>ValueError\<close>s of the header checks.\<close>

definition too_small_msg :: string where
  "too_small_msg = ''Patch file too small''"

definition invalid_msg :: string where
  "invalid_msg = ''Invalid BPS patch file''"

text \<open>
  \<^verbatim>\<open>apply_bps_patch\<close> up to its \<^verbatim>\<open>return\<close> statement: the two header checks, the three
  header values, the initial values of the locals, and the action loop. The result is
  the exception raised, or the locals when the loop has ended.
\<close>

definition interpret_patch :: "byte list \<Rightarrow> byte list \<Rightarrow> error + state" where
  "interpret_patch source_rom patch_data =
     (if length patch_data < 19 then Inl (ValueError too_small_msg)
      else if take 4 patch_data \<noteq> magic then Inl (ValueError invalid_msg)
      else
        (let source_size = read_vlv patch_data 4;
             target_size = read_vlv patch_data (snd source_size);
             metadata_size = read_vlv patch_data (snd target_size)
         in loop source_rom patch_data
              \<lparr>offset = snd metadata_size + fst metadata_size,
               source_read_offset = 0,
               target_write_offset = 0,
               target = replicate (fst target_size) 0,
               iteration_count = 0\<rparr>))"

text \<open>The \<^verbatim>\<open>return bytes(target)\<close> at the end.\<close>

definition apply_bps_patch :: "byte list \<Rightarrow> byte list \<Rightarrow> error + byte list" where
  "apply_bps_patch source_rom patch_data =
     (case interpret_patch source_rom patch_data of
        Inl e \<Rightarrow> Inl e
      | Inr st \<Rightarrow> Inr (target st))"

section \<open>Notions used in the statements\<close>

text \<open>
  The bytes one call of \<^verbatim>\<open>read_vlv\<close> consumes from the bytes in front of it (up to and
  including the first byte with bit 7, or all of them when there is none), and the
  value of a run of bytes: the low seven bits of each, least significant group first.
\<close>

fun vlv_bytes :: "byte list \<Rightarrow> byte list" where
  "vlv_bytes [] = []"
| "vlv_bytes (b # bs) = (if b AND 0x80 \<noteq> 0 then [b] else b # vlv_bytes bs)"

fun vlv_sum :: "byte list \<Rightarrow> nat" where
  "vlv_sum [] = 0"
| "vlv_sum (b # bs) = unat (b AND 0x7F) + 128 * vlv_sum bs"

text \<open>A terminating byte (bit 7 set) occurs in \<open>data\<close> at or after \<open>off\<close>.\<close>

definition terminated :: "byte list \<Rightarrow> nat \<Rightarrow> bool" where
  "terminated data off = list_ex (\<lambda>b. b AND 0x80 \<noteq> 0) (drop off data)"

text \<open>
  Modelled from the spec: the canonical base-128 encoder of a value, which the
  repository does not contain (it only applies patches). Low seven bits per byte, least
  significant group first, bit 7 set on the final byte only.
\<close>

fun encode_vlv :: "nat \<Rightarrow> byte list" where
  "encode_vlv n =
     (if n < 128 then [word_of_nat n OR 0x80]
      else word_of_nat (n mod 128) # encode_vlv (n div 128))"

declare encode_vlv.simps [simp del]

text \<open>
  Modelled from the spec: the encoder of a signed relative offset, which the repository
  does not contain. The lowest bit is the sign (1 for negative); the other bits hold the
  distance, less one for a negative offset.
\<close>

definition encode_relative_offset :: "int \<Rightarrow> nat" where
  "encode_relative_offset k = (if k < 0 then 2 * nat (- k - 1) + 1 else 2 * nat k)"

text \<open>
  The spec's error \<open>BadMagic\<close> stands for both \<^verbatim>\<open>ValueError\<close>s of the header checks: the
  patch is too small, or it does not start with the magic marker.
\<close>

definition BadMagic :: "error \<Rightarrow> bool" where
  "BadMagic e = (e = ValueError too_small_msg \<or> e = ValueError invalid_msg)"

text \<open>
  The part of one loop iteration that depends on the patch alone: the length the action
  at \<open>off\<close> decodes to, and the patch cursor after the action (TargetRead skips its
  literal bytes, SourceCopy and TargetCopy read one more value). \<open>action_lengths\<close> lists
  the lengths of the actions the loop meets from \<open>off\<close> on, and \<open>action_stream_start\<close> is
  the value \<^verbatim>\<open>offset\<close> has when the loop is entered.
\<close>

definition action_length :: "byte list \<Rightarrow> nat \<Rightarrow> nat" where
  "action_length patch_data off = drop_bit 2 (fst (read_vlv patch_data off)) + 1"

definition next_offset :: "byte list \<Rightarrow> nat \<Rightarrow> nat" where
  "next_offset patch_data off =
     (let action_data = read_vlv patch_data off;
          action = fst action_data AND 3
      in if action = 1 then snd action_data + action_length patch_data off
         else if action = 2 \<or> action = 3 then snd (read_vlv patch_data (snd action_data))
         else snd action_data)"

lemma next_offset_gt: "off < length patch_data \<Longrightarrow> off < next_offset patch_data off"
  using read_vlv_gt [of off patch_data] read_vlv_ge [of "snd (read_vlv patch_data off)" patch_data]
  by (auto simp: next_offset_def Let_def)

function action_lengths :: "byte list \<Rightarrow> nat \<Rightarrow> nat list" where
  "action_lengths patch_data off =
     (if int off < int (length patch_data) - 12 then
        action_length patch_data off # action_lengths patch_data (next_offset patch_data off)
      else [])"
  by pat_completeness auto
termination
proof (relation "measure (\<lambda>(patch_data, off). length patch_data - off)")
  show "wf (measure (\<lambda>(patch_data, off). length patch_data - off))"
    by simp
next
  fix patch_data :: "byte list" and off :: nat
  assume "int off < int (length patch_data) - 12"
  then have "off < length patch_data" by simp
  from next_offset_gt [OF this] this
  show "((patch_data, next_offset patch_data off), (patch_data, off))
      \<in> measure (\<lambda>(patch_data, off). length patch_data - off)"
    by simp
qed

declare action_lengths.simps [simp del]

definition action_stream_start :: "byte list \<Rightarrow> nat" where
  "action_stream_start patch_data =
     (let source_size = read_vlv patch_data 4;
          target_size = read_vlv patch_data (snd source_size);
          metadata_size = read_vlv patch_data (snd target_size)
      in snd metadata_size + fst metadata_size)"

subsection \<open>Example patches\<close>

text \<open>
  The spec's minimal container: source size 0, target size 1, no metadata, one
  TargetRead of length 1 carrying \<open>0x7A\<close>, and a trailer of twelve zero bytes.
\<close>

definition minimal_patch :: "byte list" where
  "minimal_patch = [0x42, 0x50, 0x53, 0x31, 0x80, 0x81, 0x80, 0x81, 0x7A,
                    0, 0, 0, 0, 0, 0, 0, 0, 0, 0, 0, 0]"

text \<open>A header declaring a target of five bytes, no action, and the trailer.\<close>

definition header_only_patch :: "byte list" where
  "header_only_patch = [0x42, 0x50, 0x53, 0x31, 0x80, 0x85, 0x80,
                        0, 0, 0, 0, 0, 0, 0, 0, 0, 0, 0, 0]"

text \<open>
  Target size 6: a TargetRead of length 1 carrying \<open>0x41\<close>, then a TargetCopy of length 5
  with the offset value 1 (relative offset -1).
\<close>

definition run_length_patch :: "byte list" where
  "run_length_patch = [0x42, 0x50, 0x53, 0x31, 0x80, 0x86, 0x80, 0x81, 0x41, 0x93, 0x81,
                       0, 0, 0, 0, 0, 0, 0, 0, 0, 0, 0, 0]"

text \<open>
  Target size 2: a SourceCopy of length 1 with the offset value 3 (relative offset -2),
  then a SourceRead of length 1.
\<close>

definition negative_cursor_patch :: "byte list" where
  "negative_cursor_patch = [0x42, 0x50, 0x53, 0x31, 0x82, 0x82, 0x80, 0x82, 0x83, 0x80,
                            0, 0, 0, 0, 0, 0, 0, 0, 0, 0, 0, 0]"

text \<open>The magic marker followed by fifteen zero bytes: no byte has bit 7.\<close>

definition truncated_patch :: "byte list" where
  "truncated_patch = [0x42, 0x50, 0x53, 0x31,
                      0, 0, 0, 0, 0, 0, 0, 0, 0, 0, 0, 0, 0, 0, 0]"

section \<open>The variable-length value decoder\<close>

lemma read_vlv_loop_eq:
  "read_vlv_loop data off result shift =
     (result + shift * vlv_sum (vlv_bytes (drop off data)),
      off + length (vlv_bytes (drop off data)))"
proof (induction data off result shift rule: read_vlv_loop.induct)
  case (1 data off result shift)
  show ?case
  proof (cases "off < length data")
    case False
    then show ?thesis by (subst read_vlv_loop.simps) simp
  next
    case True
    then have d: "drop off data = data ! off # drop (Suc off) data"
      by (simp add: Cons_nth_drop_Suc)
    show ?thesis
    proof (cases "data ! off AND 0x80 \<noteq> 0")
      case True
      with \<open>off < length data\<close> d show ?thesis
        by (subst read_vlv_loop.simps) (simp add: Let_def)
    next
      case False
      with \<open>off < length data\<close> have "read_vlv_loop data (off + 1)
          (result + unat (data ! off AND 0x7F) * shift) (push_bit 7 shift) =
        (result + unat (data ! off AND 0x7F) * shift
           + push_bit 7 shift * vlv_sum (vlv_bytes (drop (off + 1) data)),
         off + 1 + length (vlv_bytes (drop (off + 1) data)))"
        using 1 by simp
      with \<open>off < length data\<close> False d show ?thesis
        by (subst read_vlv_loop.simps) (simp add: Let_def push_bit_eq_mult algebra_simps)
    qed
  qed
qed

lemma read_vlv_eq:
  "read_vlv data off =
     (vlv_sum (vlv_bytes (drop off data)), off + length (vlv_bytes (drop off data)))"
  by (simp add: read_vlv_def read_vlv_loop_eq)

lemma byte_and_7F: "unat ((b::byte) AND 0x7F) = unat b mod 128"
proof -
  have "(0x7F::byte) = mask 7" by (simp add: mask_eq_exp_minus_1)
  then have "b AND 0x7F = take_bit 7 b" by (simp add: take_bit_eq_mask)
  then show ?thesis by (simp add: take_bit_eq_mod unat_mod)
qed

lemma byte_and_80: "((b::byte) AND 0x80 \<noteq> 0) = (128 \<le> unat b)"
proof -
  have "(0x80::byte) = push_bit 7 1" by simp
  then have "(b AND 0x80 \<noteq> 0) = bit b 7"
    by (simp only: bit_iff_and_push_bit_not_eq_0)
  also have "\<dots> = bit (unat b) 7" by (simp add: bit_unsigned_iff)
  also have "\<dots> = odd (unat b div 128)" by (simp add: bit_iff_odd)
  also have "\<dots> = (128 \<le> unat b)"
  proof -
    have "unat b < 256" using unsigned_less [of b] by simp
    then have "unat b div 128 < 2" by simp
    then have "unat b div 128 = 0 \<or> unat b div 128 = 1" by linarith
    then show ?thesis by (auto simp: div_eq_0_iff)
  qed
  finally show ?thesis .
qed

lemma final_byte_flag: "((x::byte) OR 0x80) AND 0x80 \<noteq> 0"
proof -
  have "(x OR 0x80) AND 0x80 = 0x80" by (simp add: bit_eq_iff bit_simps)
  thus ?thesis by simp
qed

lemma final_byte_low: "((x::byte) OR 0x80) AND 0x7F = x AND 0x7F"
  by (simp add: bit.conj_disj_distrib2)

lemma vlv_bytes_unterminated:
  "\<not> list_ex (\<lambda>b. b AND 0x80 \<noteq> 0) bs \<Longrightarrow> vlv_bytes bs = bs"
  by (induction bs) auto

lemma vlv_bytes_terminated:
  "list_ex (\<lambda>b. b AND 0x80 \<noteq> 0) bs \<Longrightarrow>
   \<exists>k. k < length bs \<and> bs ! k AND 0x80 \<noteq> 0 \<and> (\<forall>j<k. bs ! j AND 0x80 = 0)
     \<and> vlv_bytes bs = take (k + 1) bs"
proof (induction bs)
  case Nil
  then show ?case by simp
next
  case (Cons b bs)
  show ?case
  proof (cases "b AND 0x80 \<noteq> 0")
    case True
    then show ?thesis by (intro exI [of _ 0]) simp
  next
    case False
    with Cons obtain k where k: "k < length bs" "bs ! k AND 0x80 \<noteq> 0"
      "\<forall>j<k. bs ! j AND 0x80 = 0" "vlv_bytes bs = take (k + 1) bs"
      by auto
    with False show ?thesis
      by (intro exI [of _ "Suc k"]) (auto simp: less_Suc_eq_0_disj)
  qed
qed

lemma vlv_bytes_encode: "vlv_bytes (encode_vlv n @ post) = encode_vlv n"
proof (induction n rule: encode_vlv.induct)
  case (1 n)
  show ?case
  proof (cases "n < 128")
    case True
    then show ?thesis
      by (subst (1 2) encode_vlv.simps) (simp add: final_byte_flag)
  next
    case False
    have "unat (word_of_nat (n mod 128) :: byte) = n mod 128"
      by (simp add: unat_of_nat)
    moreover have "\<not> 128 \<le> n mod 128"
      by (simp add: not_le)
    ultimately have "(word_of_nat (n mod 128) :: byte) AND 0x80 = 0"
      using byte_and_80 [of "word_of_nat (n mod 128)"] by simp
    with False 1 show ?thesis
      by (subst (1 2) encode_vlv.simps) simp
  qed
qed

lemma vlv_sum_encode: "vlv_sum (encode_vlv n) = n"
proof (induction n rule: encode_vlv.induct)
  case (1 n)
  show ?case
  proof (cases "n < 128")
    case True
    then show ?thesis
      by (subst encode_vlv.simps) (simp add: final_byte_low byte_and_7F unat_of_nat)
  next
    case False
    with 1 show ?thesis
      by (subst encode_vlv.simps) (simp add: byte_and_7F unat_of_nat)
  qed
qed

lemma encode_vlv_last: "encode_vlv n \<noteq> [] \<and> last (encode_vlv n) AND 0x80 \<noteq> 0"
proof (induction n rule: encode_vlv.induct)
  case (1 n)
  show ?case
  proof (cases "n < 128")
    case True
    then show ?thesis
      by (subst (1 2) encode_vlv.simps) (simp add: final_byte_flag)
  next
    case False
    with 1 show ?thesis
      by (subst (1 2) encode_vlv.simps) simp
  qed
qed

lemma relative_offset_alt:
  "relative_offset v = (if odd v then - (int (v div 2) + 1) else int (v div 2))"
  by (auto simp: relative_offset_def and_one_eq drop_bit_eq_div even_iff_mod_2_eq_zero)

section \<open>The interpreter\<close>

lemma source_read_length:
  "source_read n source_rom st = Inr st' \<Longrightarrow> length (target st') = length (target st)"
  by (induction n source_rom st rule: source_read.induct)
     (auto split: if_splits sum.splits)

lemma target_read_length: "length (target (target_read n patch_data st)) = length (target st)"
  by (induction n patch_data st rule: target_read.induct) auto

lemma source_copy_length: "length (target (source_copy n source_rom st)) = length (target st)"
  by (induction n source_rom st rule: source_copy.induct) auto

lemma target_copy_length: "length (target (target_copy n copy_from st)) = length (target st)"
  by (induction n copy_from st rule: target_copy.induct) auto

lemma source_read_two:
  "source_read n source_rom st = Inr st' \<Longrightarrow> target_write_offset st' = target_write_offset st + n"
  by (induction n source_rom st rule: source_read.induct)
     (auto split: if_splits sum.splits)

lemma target_read_two: "target_write_offset (target_read n patch_data st) = target_write_offset st + n"
  by (induction n patch_data st rule: target_read.induct) auto

lemma source_copy_two: "target_write_offset (source_copy n source_rom st) = target_write_offset st + n"
  by (induction n source_rom st rule: source_copy.induct) auto

lemma target_copy_two: "target_write_offset (target_copy n copy_from st) = target_write_offset st + n"
  by (induction n copy_from st rule: target_copy.induct) auto

lemma source_read_count:
  "source_read n source_rom st = Inr st' \<Longrightarrow> iteration_count st' = iteration_count st"
  by (induction n source_rom st rule: source_read.induct)
     (auto split: if_splits sum.splits)

lemma target_read_count: "iteration_count (target_read n patch_data st) = iteration_count st"
  by (induction n patch_data st rule: target_read.induct) auto

lemma source_copy_count: "iteration_count (source_copy n source_rom st) = iteration_count st"
  by (induction n source_rom st rule: source_copy.induct) auto

lemma target_copy_count: "iteration_count (target_copy n copy_from st) = iteration_count st"
  by (induction n copy_from st rule: target_copy.induct) auto

lemma source_read_error: "source_read n source_rom st = Inl e \<Longrightarrow> e = IndexError"
  by (induction n source_rom st rule: source_read.induct)
     (auto simp: py_index_def Let_def split: if_splits sum.splits)

text \<open>
  The zero fill of the three source and target readers. SourceCopy and TargetCopy write
  \<open>0x00\<close> for every read position outside the valid range, on either side; SourceRead
  does so for a cursor at or beyond the end of the source, and never fails while its
  cursor is not negative.
\<close>

lemma source_copy_zero_fill:
  "\<not> (0 \<le> source_read_offset st \<and> source_read_offset st < int (length source_rom)) \<Longrightarrow>
   target_write_offset st < length (target st) \<Longrightarrow>
   source_copy (Suc n) source_rom st =
     source_copy n source_rom
       (st\<lparr>target := (target st)[target_write_offset st := 0],
           target_write_offset := target_write_offset st + 1,
           source_read_offset := source_read_offset st + 1\<rparr>)"
  by auto

lemma target_copy_zero_fill:
  "\<not> (0 \<le> copy_from \<and> copy_from < int (target_write_offset st)) \<Longrightarrow>
   target_write_offset st < length (target st) \<Longrightarrow>
   target_copy (Suc n) copy_from st =
     target_copy n (copy_from + 1)
       (st\<lparr>target := (target st)[target_write_offset st := 0],
           target_write_offset := target_write_offset st + 1\<rparr>)"
  by auto

lemma source_read_zero_fill:
  "int (length source_rom) \<le> source_read_offset st \<Longrightarrow>
   target_write_offset st < length (target st) \<Longrightarrow>
   source_read (Suc n) source_rom st =
     source_read n source_rom
       (st\<lparr>target := (target st)[target_write_offset st := 0],
           target_write_offset := target_write_offset st + 1,
           source_read_offset := source_read_offset st + 1\<rparr>)"
  by auto

lemma source_read_nonneg:
  "0 \<le> source_read_offset st \<Longrightarrow> \<exists>st'. source_read n source_rom st = Inr st'"
proof (induction n arbitrary: st)
  case 0
  then show ?case by simp
next
  case (Suc n)
  then show ?case by (simp add: py_index_def)
qed

lemma and_3_mod: "(n::nat) AND 3 = n mod 4"
proof -
  have "(3::nat) = mask 2" by (simp add: mask_eq_exp_minus_1)
  then have "n AND 3 = take_bit 2 n" by (simp add: take_bit_eq_mask)
  then show ?thesis by (simp add: take_bit_eq_mod)
qed

lemma action_cases: "(n::nat) AND 3 = 0 \<or> n AND 3 = 1 \<or> n AND 3 = 2 \<or> n AND 3 = 3"
proof -
  have "n mod 4 < 4" by simp
  then show ?thesis unfolding and_3_mod by linarith
qed

lemma step_length:
  "step source_rom patch_data st = Inr st' \<Longrightarrow> length (target st') = length (target st)"
  by (auto simp: step_def Let_def target_read_length source_copy_length target_copy_length
        simp del: source_read.simps split: if_splits dest!: source_read_length)

lemma step_count:
  "step source_rom patch_data st = Inr st' \<Longrightarrow> iteration_count st' = iteration_count st + 1"
  by (auto simp: step_def Let_def target_read_count source_copy_count target_copy_count
        simp del: source_read.simps split: if_splits dest!: source_read_count)

lemma step_two:
  "step source_rom patch_data st = Inr st' \<Longrightarrow>
   target_write_offset st' =
     target_write_offset st + (drop_bit 2 (fst (read_vlv patch_data (offset st))) + 1)"
  using action_cases [of "fst (read_vlv patch_data (offset st))"]
  by (auto simp: step_def Let_def target_read_two source_copy_two target_copy_two
        simp del: source_read.simps split: if_splits dest!: source_read_two)

lemma step_error:
  "step source_rom patch_data st = Inl e \<Longrightarrow>
   (e = IndexError \<or> e = ValueError max_iterations_msg \<and> length patch_data * 2 < iteration_count st + 1)"
  by (auto simp: step_def Let_def 
        simp del: source_read.simps split: if_splits dest!: source_read_error)

lemma step_guard:
  "length patch_data * 2 < iteration_count st + 1 \<Longrightarrow> step source_rom patch_data st = Inl (ValueError max_iterations_msg)"
  by (simp add: step_def)

lemma loop_length:
  "loop source_rom patch_data st = Inr st' \<Longrightarrow> length (target st') = length (target st)"
proof (induction source_rom patch_data st rule: loop.induct)
  case (1 source_rom patch_data st)
  show ?case
  proof (cases "int (offset st) < int (length patch_data) - 12")
    case False
    with "1.prems" show ?thesis by (simp add: loop.simps [of _ _ st])
  next
    case True
    with "1.prems" obtain st1 where s: "step source_rom patch_data st = Inr st1"
      and l: "loop source_rom patch_data st1 = Inr st'"
      by (auto simp: loop.simps [of _ _ st] split: sum.splits)
    from "1.IH" [OF True s l] step_length [OF s] show ?thesis by simp
  qed
qed

lemma loop_count:
  "loop source_rom patch_data st = Inr st' \<Longrightarrow>
   iteration_count st' + (length patch_data - 12 - offset st') \<le> iteration_count st + (length patch_data - 12 - offset st)
   \<and> iteration_count st \<le> iteration_count st'"
proof (induction source_rom patch_data st rule: loop.induct)
  case (1 source_rom patch_data st)
  show ?case
  proof (cases "int (offset st) < int (length patch_data) - 12")
    case False
    with "1.prems" show ?thesis by (simp add: loop.simps [of _ _ st])
  next
    case True
    with "1.prems" obtain st1 where s: "step source_rom patch_data st = Inr st1"
      and l: "loop source_rom patch_data st1 = Inr st'"
      by (auto simp: loop.simps [of _ _ st] split: sum.splits)
    from True have "offset st < length patch_data" by simp
    from step_offset_gt [OF this s] step_count [OF s] "1.IH" [OF True s l] True
    show ?thesis by auto
  qed
qed

lemma loop_no_max:
  "iteration_count st + (length patch_data - 12 - offset st) \<le> length patch_data * 2 \<Longrightarrow>
   loop source_rom patch_data st \<noteq> Inl (ValueError max_iterations_msg)"
proof (induction source_rom patch_data st rule: loop.induct)
  case (1 source_rom patch_data st)
  show ?case
  proof (cases "int (offset st) < int (length patch_data) - 12")
    case False
    then show ?thesis by (simp add: loop.simps [of _ _ st])
  next
    case True
    show ?thesis
    proof (cases "step source_rom patch_data st")
      case (Inl e)
      with True "1.prems" step_error [OF Inl] show ?thesis
        by (auto simp: loop.simps [of _ _ st])
    next
      case (Inr st1)
      from True have "offset st < length patch_data" by simp
      from step_offset_gt [OF this Inr] step_count [OF Inr] "1.prems" True
      have "iteration_count st1 + (length patch_data - 12 - offset st1) \<le> length patch_data * 2"
        by auto
      from "1.IH" [OF True Inr this] Inr True show ?thesis
        by (simp add: loop.simps [of _ _ st])
    qed
  qed
qed

lemma loop_error:
  "loop source_rom patch_data st = Inl e \<Longrightarrow> e = IndexError \<or> e = ValueError max_iterations_msg"
proof (induction source_rom patch_data st rule: loop.induct)
  case (1 source_rom patch_data st)
  show ?case
  proof (cases "int (offset st) < int (length patch_data) - 12")
    case False
    with "1.prems" show ?thesis by (simp add: loop.simps [of _ _ st])
  next
    case True
    show ?thesis
    proof (cases "step source_rom patch_data st")
      case (Inl e')
      with True "1.prems" step_error [OF Inl] show ?thesis
        by (auto simp: loop.simps [of _ _ st])
    next
      case (Inr st1)
      with "1.prems" True have "loop source_rom patch_data st1 = Inl e"
        by (simp add: loop.simps [of _ _ st])
      from "1.IH" [OF True Inr this] show ?thesis .
    qed
  qed
qed

text \<open>
  Every argument is in the domain of \<open>loop\<close>: a recursive call is made only after an
  iteration that moved the patch cursor forward, towards the end of the patch.
\<close>

lemma loop_total: "loop_dom (source_rom, patch_data, st)"
proof (induction "length patch_data - offset st" arbitrary: st rule: less_induct)
  case less
  show ?case
  proof (rule accpI)
    fix y
    assume "loop_rel y (source_rom, patch_data, st)"
    then obtain st' where y: "y = (source_rom, patch_data, st')"
      and c: "int (offset st) < int (length patch_data) - 12"
      and s: "step source_rom patch_data st = Inr st'"
      by (cases rule: loop_rel.cases) auto
    from c have "offset st < length patch_data" by simp
    from step_offset_gt [OF this s] this
    have "length patch_data - offset st' < length patch_data - offset st" by simp
    then show "loop_dom y" unfolding y by (rule less)
  qed
qed

lemma msgs_distinct:
  "max_iterations_msg \<noteq> too_small_msg" "max_iterations_msg \<noteq> invalid_msg"
  "too_small_msg \<noteq> invalid_msg"
  by (simp_all add: max_iterations_msg_def too_small_msg_def invalid_msg_def)

lemma interpret_patch_no_max:
  "interpret_patch source_rom patch_data \<noteq> Inl (ValueError max_iterations_msg)"
proof (cases "length patch_data < 19 \<or> take 4 patch_data \<noteq> magic")
  case True
  then show ?thesis
    using msgs_distinct by (auto simp: interpret_patch_def)
next
  case False
  then show ?thesis
    by (auto simp: interpret_patch_def Let_def intro!: loop_no_max)
qed

lemma interpret_patch_error:
  "interpret_patch source_rom patch_data = Inl e \<Longrightarrow>
   \<not> length patch_data < 19 \<Longrightarrow> take 4 patch_data = magic \<Longrightarrow> e = IndexError"
  using interpret_patch_no_max [of source_rom patch_data]
  by (auto simp: interpret_patch_def Let_def dest!: loop_error)

lemma minimal_patch_run:
  "interpret_patch [] minimal_patch =
     Inr \<lparr>offset = 9, source_read_offset = 0, target_write_offset = 1, target = [0x7A],
          iteration_count = 1\<rparr>"
  by (simp add: interpret_patch_def minimal_patch_def magic_def read_vlv_eq
      loop.simps step_def Let_def)

lemma interpret_patch_count:
  assumes "interpret_patch source_rom patch_data = Inr st'"
  shows "iteration_count st' \<le> length patch_data"
proof -
  from assms obtain st0 where l: "loop source_rom patch_data st0 = Inr st'"
    and c: "iteration_count st0 = 0"
    by (auto simp: interpret_patch_def Let_def split: if_splits)
  from loop_count [OF l] c show ?thesis by simp
qed

lemma step_offset:
  "step source_rom patch_data st = Inr st' \<Longrightarrow> offset st' = next_offset patch_data (offset st)"
  using action_cases [of "fst (read_vlv patch_data (offset st))"]
  by (auto simp: step_def Let_def next_offset_def action_length_def
        target_read_offset source_copy_offset target_copy_offset
        simp del: source_read.simps split: if_splits dest!: source_read_offset_same)

lemma loop_two:
  "loop source_rom patch_data st = Inr st' \<Longrightarrow>
   target_write_offset st' =
     target_write_offset st + sum_list (action_lengths patch_data (offset st))"
proof (induction source_rom patch_data st rule: loop.induct)
  case (1 source_rom patch_data st)
  show ?case
  proof (cases "int (offset st) < int (length patch_data) - 12")
    case False
    with "1.prems" have "st' = st"
      by (simp add: loop.simps [of _ _ st])
    with False show ?thesis
      by (simp add: action_lengths.simps [of _ "offset st"])
  next
    case True
    with "1.prems" obtain st1 where s: "step source_rom patch_data st = Inr st1"
      and l: "loop source_rom patch_data st1 = Inr st'"
      by (auto simp: loop.simps [of _ _ st] split: sum.splits)
    from "1.IH" [OF True s l] step_two [OF s] step_offset [OF s] True show ?thesis
      by (simp add: action_lengths.simps [of _ "offset st"] action_length_def)
  qed
qed

lemma replicate_5: "replicate 5 x = [x, x, x, x, x]"
  by (simp add: numeral_eq_Suc)

lemma target_copy_run:
  "1 \<le> target_write_offset st \<Longrightarrow> target_write_offset st + n \<le> length (target st) \<Longrightarrow>
   target (target_copy n (int (target_write_offset st) - 1) st) =
     take (target_write_offset st) (target st)
       @ replicate n (target st ! (target_write_offset st - 1))
       @ drop (target_write_offset st + n) (target st)"
proof (induction n arbitrary: st)
  case 0
  then show ?case by simp
next
  case (Suc n)
  let ?t = "target st" and ?w = "target_write_offset st"
  let ?x = "?t ! (?w - 1)"
  let ?st' = "st\<lparr>target := ?t[?w := ?x], target_write_offset := ?w + 1\<rparr>"
  from Suc.prems have w: "?w < length ?t" "1 \<le> ?w" by simp_all
  then have unfold: "target_copy (Suc n) (int ?w - 1) st = target_copy n (int ?w) ?st'"
    by (simp add: nat_diff_distrib')
  have "target (target_copy n (int (target_write_offset ?st') - 1) ?st') =
     take (target_write_offset ?st') (target ?st')
       @ replicate n (target ?st' ! (target_write_offset ?st' - 1))
       @ drop (target_write_offset ?st' + n) (target ?st')"
    using Suc.prems by (intro Suc.IH) simp_all
  then have "target (target_copy n (int ?w) ?st') =
     take (Suc ?w) (?t[?w := ?x]) @ replicate n ?x @ drop (Suc (?w + n)) (?t[?w := ?x])"
    using w by simp
  also have "take (Suc ?w) (?t[?w := ?x]) = take ?w ?t @ [?x]"
    using w by (simp add: take_Suc_conv_app_nth)
  also have "drop (Suc (?w + n)) (?t[?w := ?x]) = drop (?w + Suc n) ?t"
    by simp
  finally show ?case
    unfolding unfold by (simp del: target_copy.simps)
qed

lemma replicate_2: "replicate 2 x = [x, x]"
  by (simp add: numeral_eq_Suc)

lemma negative_cursor_vlv:
  "read_vlv negative_cursor_patch 4 = (2, 5)" "read_vlv negative_cursor_patch 5 = (2, 6)"
  "read_vlv negative_cursor_patch 6 = (0, 7)" "read_vlv negative_cursor_patch 7 = (2, 8)"
  "read_vlv negative_cursor_patch 8 = (3, 9)" "read_vlv negative_cursor_patch 9 = (0, 10)"
  by (simp_all add: negative_cursor_patch_def read_vlv_eq)

lemma negative_cursor_header:
  "length negative_cursor_patch = 22" "take 4 negative_cursor_patch = magic"
  by (simp_all add: negative_cursor_patch_def magic_def)

lemma truncated_vlv: "read_vlv truncated_patch 4 = (0, 19)" "read_vlv truncated_patch 19 = (0, 19)"
  by (simp_all add: truncated_patch_def read_vlv_eq)

section \<open>The claims\<close>

text \<open>
  C1 (zero fill of an out-of-range read). SourceCopy and TargetCopy test the lower bound
  of their read position, SourceRead does not: after a SourceCopy has left
  \<^verbatim>\<open>source_read_offset\<close> negative, a SourceRead subscripts the source with a negative
  index. The patch below declares a target of two bytes and holds SourceCopy (length 1,
  offset -2) followed by SourceRead (length 1); the second action reads at cursor -1.
  With an empty source the subscript raises \<^verbatim>\<open>IndexError\<close>; with the source \<open>[0x41, 0x42]\<close>
  it reads the last byte of the source, so \<open>0x42\<close> is written where the claim puts
  \<open>0x00\<close>. (With a cursor that is not negative SourceRead never fails, and the other
  two readers zero-fill on both sides: see the lemmas on the zero fill above.)
\<close>

theorem source_read_negative_cursor:
  "apply_bps_patch [] negative_cursor_patch = Inl IndexError
   \<and> apply_bps_patch [0x41, 0x42] negative_cursor_patch = Inr [0x00, 0x42]"
  by (simp add: apply_bps_patch_def interpret_patch_def negative_cursor_vlv
      negative_cursor_header loop.simps step_def Let_def relative_offset_alt replicate_2
      py_index_def)

text \<open>
  C2 (the decoder on a value that runs off the end). As stated the claim fails:
  \<^verbatim>\<open>read_vlv\<close> raises nothing. On the patch below no byte at or after offset 4 has bit 7,
  the decoder returns \<open>(0, 19)\<close>, and \<^verbatim>\<open>apply_bps_patch\<close> returns an empty target.
\<close>

theorem read_vlv_truncated_counterexample:
  "\<not> terminated truncated_patch 4
   \<and> read_vlv truncated_patch 4 = (0, 19)
   \<and> apply_bps_patch [] truncated_patch = Inr []"
proof -
  have "\<not> terminated truncated_patch 4"
    by (simp add: terminated_def truncated_patch_def)
  moreover have "length truncated_patch = 19" "take 4 truncated_patch = magic"
    by (simp_all add: truncated_patch_def magic_def)
  then have "apply_bps_patch [] truncated_patch = Inr []"
    by (simp add: apply_bps_patch_def interpret_patch_def truncated_vlv loop.simps Let_def)
  ultimately show ?thesis by (simp add: truncated_vlv)
qed

text \<open>
  C2, as amended: \<^verbatim>\<open>read_vlv\<close> never fails. When no byte with bit 7 occurs at or after
  the offset, it returns the value of all the remaining bytes and the offset
  \<open>max off (length data)\<close> (the end of the data, or the offset itself when that is already
  beyond the end). When such a byte occurs, the first one being \<open>k\<close> bytes after the
  offset, it returns the value of the \<open>k + 1\<close> bytes up to it and the offset just after it.
\<close>

theorem read_vlv_never_fails:
  "(\<not> terminated data off \<longrightarrow>
      read_vlv data off = (vlv_sum (drop off data), max off (length data)))
   \<and> (terminated data off \<longrightarrow>
      (\<exists>k. off + k < length data \<and> data ! (off + k) AND 0x80 \<noteq> 0
         \<and> (\<forall>j<k. data ! (off + j) AND 0x80 = 0)
         \<and> read_vlv data off = (vlv_sum (take (k + 1) (drop off data)), off + k + 1)))"
proof (intro conjI impI)
  assume "\<not> terminated data off"
  then show "read_vlv data off = (vlv_sum (drop off data), max off (length data))"
    by (auto simp: terminated_def read_vlv_eq vlv_bytes_unterminated max_def)
next
  assume "terminated data off"
  then obtain k where k: "k < length (drop off data)" "drop off data ! k AND 0x80 \<noteq> 0"
    "\<forall>j<k. drop off data ! j AND 0x80 = 0"
    "vlv_bytes (drop off data) = take (k + 1) (drop off data)"
    unfolding terminated_def using vlv_bytes_terminated by blast
  then show "\<exists>k. off + k < length data \<and> data ! (off + k) AND 0x80 \<noteq> 0
         \<and> (\<forall>j<k. data ! (off + j) AND 0x80 = 0)
         \<and> read_vlv data off = (vlv_sum (take (k + 1) (drop off data)), off + k + 1)"
    by (intro exI [of _ k]) (auto simp: read_vlv_eq)
qed

theorem read_vlv_never_fails_witness:
  "(\<not> terminated [0x01, 0x02] 0 \<and> read_vlv [0x01, 0x02] 0 = (257, 2))
   \<and> (\<not> terminated [0x01, 0x02] 5 \<and> read_vlv [0x01, 0x02] 5 = (0, 5))
   \<and> (terminated [0x01, 0x82, 0x03] 0 \<and> read_vlv [0x01, 0x82, 0x03] 0 = (257, 2))"
proof -
  have a: "\<not> terminated [0x01, 0x02] 0" "\<not> terminated [0x01, 0x02] 5"
    "terminated [0x01, 0x82, 0x03] 0"
    by (simp_all add: terminated_def)
  from a(3) read_vlv_never_fails [of "[0x01, 0x82, 0x03]" 0]
  obtain k where k: "k < 3" "[0x01, 0x82, 0x03 :: byte] ! k AND 0x80 \<noteq> 0"
    "\<forall>j<k. [0x01, 0x82, 0x03 :: byte] ! j AND 0x80 = 0"
    "read_vlv [0x01, 0x82, 0x03] 0 = (vlv_sum (take (k + 1) [0x01, 0x82, 0x03]), k + 1)"
    by auto
  have "k = 1"
  proof -
    from k(1) have "k = 0 \<or> k = 1 \<or> k = 2" by linarith
    with k(2,3) show ?thesis by auto
  qed
  with k(4) have "read_vlv [0x01, 0x82, 0x03] 0 = (257, 2)" by simp
  with a read_vlv_never_fails [of "[0x01, 0x02]" 0] read_vlv_never_fails [of "[0x01, 0x02]" 5]
  show ?thesis by simp
qed

text \<open>
  C3 (the write cursor on success). As stated the claim fails: the code never compares
  the cursor with the declared target size. The patch below declares a target of five
  bytes and has no action; the call succeeds with the cursor at 0.
\<close>

theorem final_cursor_counterexample:
  "interpret_patch [] header_only_patch =
     Inr \<lparr>offset = 7, source_read_offset = 0, target_write_offset = 0,
          target = [0, 0, 0, 0, 0], iteration_count = 0\<rparr>
   \<and> fst (read_vlv header_only_patch (snd (read_vlv header_only_patch 4))) = 5"
  by (simp add: interpret_patch_def header_only_patch_def magic_def read_vlv_eq
      loop.simps Let_def replicate_5)

text \<open>
  C3, as amended: on every successful call the write cursor after the loop is the sum
  of the decoded lengths of the actions of the stream (each action advances it by its
  length, whether or not bytes were written); so it equals the declared target size
  exactly when those lengths add up to it.
\<close>

theorem final_cursor:
  "interpret_patch source_rom patch_data = Inr st \<Longrightarrow>
   target_write_offset st = sum_list (action_lengths patch_data (action_stream_start patch_data))"
  by (auto simp: interpret_patch_def action_stream_start_def Let_def
      split: if_splits dest!: loop_two)

theorem final_cursor_witness:
  "interpret_patch [] minimal_patch =
     Inr \<lparr>offset = 9, source_read_offset = 0, target_write_offset = 1, target = [0x7A],
          iteration_count = 1\<rparr>
   \<and> sum_list (action_lengths minimal_patch (action_stream_start minimal_patch)) = 1"
  using final_cursor [OF minimal_patch_run] minimal_patch_run by simp

text \<open>
  C4 (self-overlapping TargetCopy). In a state where at least one byte precedes the write
  cursor and the cursor plus \<open>n\<close> stays within the target, an iteration that decodes a
  TargetCopy (action 3) of length \<open>n\<close> with relative offset -1 succeeds, leaves the bytes
  before the cursor and from the cursor plus \<open>n\<close> on as they were, writes \<open>n\<close> copies of
  the byte just before the cursor, and advances the cursor by \<open>n\<close>.
\<close>

theorem target_copy_self_overlap:
  assumes "\<not> length patch_data * 2 < iteration_count st + 1"
    and "fst (read_vlv patch_data (offset st)) AND 3 = 3"
    and "drop_bit 2 (fst (read_vlv patch_data (offset st))) + 1 = n"
    and "relative_offset (fst (read_vlv patch_data (snd (read_vlv patch_data (offset st))))) = - 1"
    and "1 \<le> target_write_offset st"
    and "target_write_offset st + n \<le> length (target st)"
  shows "\<exists>st'. step source_rom patch_data st = Inr st'
    \<and> target st' = take (target_write_offset st) (target st)
         @ replicate n (target st ! (target_write_offset st - 1))
         @ drop (target_write_offset st + n) (target st)
    \<and> target_write_offset st' = target_write_offset st + n"
proof -
  let ?st2 = "st\<lparr>iteration_count := iteration_count st + 1,
      offset := snd (read_vlv patch_data (snd (read_vlv patch_data (offset st))))\<rparr>"
  have s: "step source_rom patch_data st =
      Inr (target_copy n (int (target_write_offset ?st2) - 1) ?st2)"
    using assms(1-4) by (simp add: step_def Let_def)
  from assms(5,6) have "target (target_copy n (int (target_write_offset ?st2) - 1) ?st2) =
     take (target_write_offset ?st2) (target ?st2)
       @ replicate n (target ?st2 ! (target_write_offset ?st2 - 1))
       @ drop (target_write_offset ?st2 + n) (target ?st2)"
    by (intro target_copy_run) simp_all
  with s show ?thesis
    by (simp add: target_copy_two)
qed

theorem target_copy_self_overlap_witness:
  "(\<exists>st'. step [] run_length_patch
       \<lparr>offset = 9, source_read_offset = 0, target_write_offset = 1,
        target = [0x41, 0, 0, 0, 0, 0], iteration_count = 1\<rparr> = Inr st'
     \<and> target st' = [0x41, 0x41, 0x41, 0x41, 0x41, 0x41]
     \<and> target_write_offset st' = 6)
   \<and> read_vlv run_length_patch 9 = (19, 10) \<and> read_vlv run_length_patch 10 = (1, 11)
   \<and> relative_offset 1 = - 1"
proof -
  let ?st = "\<lparr>offset = 9, source_read_offset = 0, target_write_offset = 1,
      target = [0x41, 0, 0, 0, 0, 0], iteration_count = 1\<rparr>"
  have v: "read_vlv run_length_patch 9 = (19, 10)" "read_vlv run_length_patch 10 = (1, 11)"
    by (simp_all add: run_length_patch_def read_vlv_eq)
  have l: "length run_length_patch = 23"
    by (simp add: run_length_patch_def)
  have r: "relative_offset 1 = - 1" "relative_offset (Suc 0) = - 1"
    by (simp_all add: relative_offset_alt)
  have "\<exists>st'. step [] run_length_patch ?st = Inr st'
    \<and> target st' = take (target_write_offset ?st) (target ?st)
         @ replicate 5 (target ?st ! (target_write_offset ?st - 1))
         @ drop (target_write_offset ?st + 5) (target ?st)
    \<and> target_write_offset st' = target_write_offset ?st + 5"
    by (rule target_copy_self_overlap) (simp_all add: v l r)
  then have "\<exists>st'. step [] run_length_patch ?st = Inr st'
     \<and> target st' = [0x41, 0x41, 0x41, 0x41, 0x41, 0x41]
     \<and> target_write_offset st' = 6"
    by (simp add: replicate_5)
  with v r show ?thesis by simp
qed

text \<open>
  C5 (round trip of the variable-length value). For every natural number \<open>n\<close>, decoding
  the canonical base-128 encoding of \<open>n\<close>, wherever it stands in the data (after any
  bytes \<open>pre\<close>, before any bytes \<open>post\<close>), returns \<open>n\<close> and the offset just after the
  encoding, whose last byte is the terminating one (bit 7 set).
\<close>

theorem read_vlv_encode_vlv:
  "read_vlv (pre @ encode_vlv n @ post) (length pre)
     = (n, length pre + length (encode_vlv n))
   \<and> encode_vlv n \<noteq> [] \<and> last (encode_vlv n) AND 0x80 \<noteq> 0"
  by (simp add: read_vlv_eq vlv_bytes_encode vlv_sum_encode encode_vlv_last)

theorem read_vlv_encode_vlv_witness:
  "read_vlv ([0xFF] @ [0x2C, 0x82] @ [0x00]) 1 = (300, 3) \<and> encode_vlv 300 = [0x2C, 0x82]"
proof -
  have e: "encode_vlv 300 = [0x2C, 0x82]"
    by (simp add: encode_vlv.simps)
  show ?thesis
    using read_vlv_encode_vlv [of "[0xFF]" 300 "[0x00]"] by (simp add: e)
qed

text \<open>
  C6 (the signed relative offset of SourceCopy and TargetCopy). For a decoded value \<open>v\<close>
  it is \<open>-((v >> 1) + 1)\<close> when \<open>v\<close> is odd and \<open>v >> 1\<close> when \<open>v\<close> is even; the value 1
  gives the offset -1; and decoding the encoding of any integer \<open>k\<close> gives \<open>k\<close> back.
\<close>

theorem relative_offset_roundtrip:
  "relative_offset v = (if odd v then - (int (v div 2) + 1) else int (v div 2))
   \<and> relative_offset 1 = - 1
   \<and> relative_offset (encode_relative_offset k) = k"
  by (auto simp: relative_offset_alt encode_relative_offset_def)

theorem relative_offset_roundtrip_witness:
  "relative_offset 7 = - 4 \<and> encode_relative_offset (- 4) = 7
   \<and> relative_offset (encode_relative_offset (- 1)) = - 1"
  using relative_offset_roundtrip [of 7 "- 1"]
  by (simp add: encode_relative_offset_def)

text \<open>
  C7 (the loop guard). As stated the claim fails: no input makes \<^verbatim>\<open>apply_bps_patch\<close>
  raise the error of the iteration cap.
\<close>

theorem loop_guard_unreachable_counterexample:
  "\<not> (\<exists>source_rom patch_data.
        apply_bps_patch source_rom patch_data = Inl (ValueError max_iterations_msg))"
  using interpret_patch_no_max
  by (auto simp: apply_bps_patch_def split: sum.splits)

text \<open>
  C7, as amended: the interpreter does cap the iterations at twice the length of the
  patch, and an iteration that starts with the count already at the cap raises the
  \<^verbatim>\<open>ValueError\<close> of the cap. But the cap is never reached: from every state whose iteration
  count plus the bytes left before the trailer is at most the cap the loop does not raise
  that error, and neither does any run of \<^verbatim>\<open>apply_bps_patch\<close>.
\<close>

theorem loop_guard:
  "(length patch_data * 2 < iteration_count st + 1 \<longrightarrow>
      step source_rom patch_data st = Inl (ValueError max_iterations_msg))
   \<and> (iteration_count st + (length patch_data - 12 - offset st) \<le> length patch_data * 2 \<longrightarrow>
      loop source_rom patch_data st \<noteq> Inl (ValueError max_iterations_msg))
   \<and> interpret_patch source_rom patch_data \<noteq> Inl (ValueError max_iterations_msg)"
  by (simp add: step_guard loop_no_max interpret_patch_no_max)

theorem loop_guard_witness:
  "step [] minimal_patch
     \<lparr>offset = 7, source_read_offset = 0, target_write_offset = 0, target = [0],
      iteration_count = 42\<rparr> = Inl (ValueError max_iterations_msg)
   \<and> loop [] minimal_patch
     \<lparr>offset = 7, source_read_offset = 0, target_write_offset = 0, target = [0],
      iteration_count = 0\<rparr> \<noteq> Inl (ValueError max_iterations_msg)"
proof -
  have l: "length minimal_patch = 21"
    by (simp add: minimal_patch_def)
  from loop_guard [of minimal_patch "\<lparr>offset = 7, source_read_offset = 0,
      target_write_offset = 0, target = [0], iteration_count = 42\<rparr>" "[]"]
    loop_guard [of minimal_patch "\<lparr>offset = 7, source_read_offset = 0,
      target_write_offset = 0, target = [0], iteration_count = 0\<rparr>" "[]"]
  show ?thesis by (simp add: l)
qed

text \<open>
  C8 (the header check). \<^verbatim>\<open>apply_bps_patch\<close> fails with one of the two errors the spec
  calls BadMagic exactly when the patch has fewer than 19 bytes or its first four bytes
  are not \<^verbatim>\<open>BPS1\<close>. On such a patch the result is that error (the message of the length
  check when the patch is short, of the magic check otherwise), whatever the source and
  the rest of the patch are.
\<close>

theorem bad_magic_iff:
  "((\<exists>e. apply_bps_patch source_rom patch_data = Inl e \<and> BadMagic e)
      = (length patch_data < 19 \<or> take 4 patch_data \<noteq> magic))
   \<and> (length patch_data < 19 \<longrightarrow>
        apply_bps_patch source_rom patch_data = Inl (ValueError too_small_msg))
   \<and> (\<not> length patch_data < 19 \<and> take 4 patch_data \<noteq> magic \<longrightarrow>
        apply_bps_patch source_rom patch_data = Inl (ValueError invalid_msg))"
proof -
  have a: "length patch_data < 19 \<Longrightarrow>
      apply_bps_patch source_rom patch_data = Inl (ValueError too_small_msg)"
    by (simp add: apply_bps_patch_def interpret_patch_def)
  have b: "\<not> length patch_data < 19 \<Longrightarrow> take 4 patch_data \<noteq> magic \<Longrightarrow>
      apply_bps_patch source_rom patch_data = Inl (ValueError invalid_msg)"
    by (simp add: apply_bps_patch_def interpret_patch_def)
  have c: "\<not> BadMagic e" if "\<not> length patch_data < 19" "take 4 patch_data = magic"
    "apply_bps_patch source_rom patch_data = Inl e" for e
  proof -
    from that(3) have "interpret_patch source_rom patch_data = Inl e"
      by (auto simp: apply_bps_patch_def split: sum.splits)
    from interpret_patch_error [OF this that(1,2)] show ?thesis
      by (simp add: BadMagic_def)
  qed
  from a b c show ?thesis
    by (auto simp: BadMagic_def)
qed

theorem bad_magic_iff_witness:
  "apply_bps_patch [] [0x42, 0x50, 0x53, 0x31] = Inl (ValueError too_small_msg)
   \<and> apply_bps_patch [] [0x49, 0x50, 0x53, 0x31, 0x80, 0x81, 0x80, 0x81, 0x7A, 0, 0, 0, 0, 0, 0, 0, 0, 0, 0, 0, 0] = Inl (ValueError invalid_msg)
   \<and> \<not> (\<exists>e. apply_bps_patch [] minimal_patch = Inl e \<and> BadMagic e)"
  using bad_magic_iff [of "[]" "[0x42, 0x50, 0x53, 0x31]"]
    bad_magic_iff [of "[]" "[0x49, 0x50, 0x53, 0x31, 0x80, 0x81, 0x80, 0x81, 0x7A, 0, 0, 0, 0, 0, 0, 0, 0, 0, 0, 0, 0]"]
    bad_magic_iff [of "[]" minimal_patch]
  by (simp add: magic_def minimal_patch_def)

text \<open>
  C9 (length of the result). When \<^verbatim>\<open>apply_bps_patch\<close> returns a byte sequence, its length
  is the target size of the header (the second value decoded after the magic), for
  every source.
\<close>

theorem result_length:
  "apply_bps_patch source_rom patch_data = Inr result \<Longrightarrow>
   length result = fst (read_vlv patch_data (snd (read_vlv patch_data 4)))"
  by (auto simp: apply_bps_patch_def interpret_patch_def Let_def
      split: sum.splits if_splits dest!: loop_length)

theorem result_length_witness:
  "apply_bps_patch [] minimal_patch = Inr [0x7A]
   \<and> fst (read_vlv minimal_patch (snd (read_vlv minimal_patch 4))) = 1"
proof -
  have r: "apply_bps_patch [] minimal_patch = Inr [0x7A]"
    by (simp add: apply_bps_patch_def minimal_patch_run)
  from result_length [OF r] r show ?thesis by simp
qed

text \<open>
  C10 (termination). The action loop terminates on every input: every argument is in
  the domain of \<open>loop\<close>. Each iteration that does not raise moves the patch cursor forward
  and adds one to the iteration count; a successful run has made at most
  \<open>length patch_data\<close> iterations; and the error of the iteration cap is never raised.
\<close>

theorem loop_terminates:
  "loop_dom (source_rom, patch_data, st)
   \<and> (int (offset st) < int (length patch_data) - 12 \<longrightarrow>
        (\<forall>st'. step source_rom patch_data st = Inr st' \<longrightarrow>
           offset st < offset st' \<and> iteration_count st' = iteration_count st + 1))
   \<and> (\<forall>st'. interpret_patch source_rom patch_data = Inr st' \<longrightarrow>
        iteration_count st' \<le> length patch_data)
   \<and> apply_bps_patch source_rom patch_data \<noteq> Inl (ValueError max_iterations_msg)"
proof (intro conjI impI allI)
  show "loop_dom (source_rom, patch_data, st)" by (rule loop_total)
next
  fix st'
  assume a: "int (offset st) < int (length patch_data) - 12"
    and s: "step source_rom patch_data st = Inr st'"
  from a have "offset st < length patch_data" by simp
  from step_offset_gt [OF this s] show "offset st < offset st'" .
  from step_count [OF s] show "iteration_count st' = iteration_count st + 1" .
next
  fix st'
  assume "interpret_patch source_rom patch_data = Inr st'"
  then show "iteration_count st' \<le> length patch_data" by (rule interpret_patch_count)
next
  show "apply_bps_patch source_rom patch_data \<noteq> Inl (ValueError max_iterations_msg)"
    using interpret_patch_no_max [of source_rom patch_data]
    by (auto simp: apply_bps_patch_def split: sum.splits)
qed

theorem loop_terminates_witness:
  "step [] minimal_patch
     \<lparr>offset = 7, source_read_offset = 0, target_write_offset = 0, target = [0],
      iteration_count = 0\<rparr>
     = Inr \<lparr>offset = 9, source_read_offset = 0, target_write_offset = 1, target = [0x7A],
            iteration_count = 1\<rparr>
   \<and> (7::nat) < 9
   \<and> interpret_patch [] minimal_patch
     = Inr \<lparr>offset = 9, source_read_offset = 0, target_write_offset = 1, target = [0x7A],
            iteration_count = 1\<rparr>
   \<and> (1::nat) \<le> length minimal_patch
   \<and> apply_bps_patch [] minimal_patch \<noteq> Inl (ValueError max_iterations_msg)"
proof -
  let ?st = "\<lparr>offset = 7, source_read_offset = 0, target_write_offset = 0, target = [0::byte],
      iteration_count = 0\<rparr>"
  have v: "read_vlv minimal_patch 7 = (1, 8)"
    by (simp add: minimal_patch_def read_vlv_eq)
  have l: "length minimal_patch = 21" "minimal_patch ! 8 = 0x7A"
    by (simp_all add: minimal_patch_def)
  have s: "step [] minimal_patch ?st
     = Inr \<lparr>offset = 9, source_read_offset = 0, target_write_offset = 1, target = [0x7A],
            iteration_count = 1\<rparr>"
    by (simp add: step_def v l Let_def)
  from loop_terminates [of "[]" minimal_patch ?st] s minimal_patch_run l
  show ?thesis by simp
qed

end
